theory Spec2Isabelle
  imports Main "HOL-Library.Word" "HOL-Library.Sublist"
begin

section \<open>Data model of lib/speedbump.go\<close>

text \<open>
  Go's \<open>int\<close> is taken at its width on 64-bit targets: a 64-bit two's complement
  word, read with \<open>sint\<close>. An \<open>error\<close> value is represented by its message (what
  \<open>err.Error()\<close> returns). Pointers and handles to objects that live outside
  lib/speedbump.go (sockets, listeners, contexts, proxy connections) are addresses.
\<close>

type_synonym go_int = "64 word"
type_synonym go_error = string
type_synonym time = nat
type_synonym tcp_conn = nat
type_synonym tcp_listener = nat
type_synonym go_context = nat
type_synonym connection = nat

record tcp_addr =
  addrIP :: "nat list"
  addrPort :: go_int
  addrZone :: string

datatype logval = LStr string | LInt go_int | LAddrString tcp_addr

record logger =
  logLevel :: string
  logWith :: "logval list"

record 'gen Speedbump =
  bufferSize :: go_int
  queueSize :: go_int
  srcAddr :: tcp_addr
  destAddr :: tcp_addr
  listener :: "tcp_listener option"
  latencyGen :: "'gen"
  nextConnId :: go_int
  active :: int
  ctx :: "go_context option"
  ctxCancel :: "go_context option"
  log :: logger
  disabled :: bool
  activeConnections :: "connection list"

record 'lat SpeedbumpCfg =
  Host :: string
  Port :: go_int
  DestAddr :: string
  BufferSize :: go_int
  QueueSize :: go_int
  Latency :: "'lat"
  LogLevel :: string
  Disabled :: bool

section \<open>Formatting helpers of the standard library\<close>

text \<open>The verb \<open>%d\<close> of \<open>fmt.Sprintf\<close>: a signed decimal numeral.\<close>

fun digits10 :: "nat \<Rightarrow> string" where
  "digits10 n =
     (if n < 10 then [''0123456789'' ! n]
      else digits10 (n div 10) @ [''0123456789'' ! (n mod 10)])"

declare digits10.simps [simp del]

definition fmt_d :: "go_int \<Rightarrow> string" where
  "fmt_d i = (if sint i < 0 then ''-'' @ digits10 (nat (- sint i)) else digits10 (nat (sint i)))"

text \<open>\<open>strings.Contains(s, substr)\<close>.\<close>

fun strings_Contains :: "string \<Rightarrow> string \<Rightarrow> bool" where
  "strings_Contains [] substr = (substr = [])"
| "strings_Contains (c # cs) substr = (prefix substr (c # cs) \<or> strings_Contains cs substr)"

section \<open>NewSpeedbump\<close>

text \<open>
  \<open>net.ResolveTCPAddr\<close> depends on the resolver of the host and \<open>time.Now\<close> on the
  clock, so both are parameters; \<open>newSimpleLatencyGenerator\<close> is declared in another
  file of the package and is a parameter as well. \<open>localAddress\<close> is
  \<open>fmt.Sprintf("%s:%d", cfg.Host, cfg.Port)\<close>. The zero values of the fields the
  composite literal leaves out are written out. The configuration is the struct that
  \<open>cfg\<close> points to (a nil \<open>cfg\<close> is no configuration), and the three parameters are
  taken to return.
\<close>

definition localAddress :: "'lat SpeedbumpCfg \<Rightarrow> string" where
  "localAddress cfg = Host cfg @ '':'' @ fmt_d (Port cfg)"

definition NewSpeedbump ::
  "(string \<Rightarrow> string \<Rightarrow> go_error + tcp_addr) \<Rightarrow> (time \<Rightarrow> 'lat \<Rightarrow> 'gen) \<Rightarrow> time \<Rightarrow>
   'lat SpeedbumpCfg \<Rightarrow> go_error + 'gen Speedbump" where
  "NewSpeedbump ResolveTCPAddr newSimpleLatencyGenerator now cfg =
     (case ResolveTCPAddr ''tcp'' (localAddress cfg) of
        Inl err \<Rightarrow> Inl (''Error resolving local address: '' @ err)
      | Inr localTCPAddr \<Rightarrow>
          (case ResolveTCPAddr ''tcp'' (DestAddr cfg) of
             Inl err \<Rightarrow> Inl (''Error resolving destination address: '' @ err)
           | Inr destTCPAddr \<Rightarrow>
               (let l = \<lparr>logLevel = LogLevel cfg, logWith = []\<rparr>;
                    queueSize = (if QueueSize cfg = 0 then 1024 else QueueSize cfg)
                in Inr \<lparr>bufferSize = BufferSize cfg,
                        queueSize = queueSize,
                        srcAddr = localTCPAddr,
                        destAddr = destTCPAddr,
                        listener = None,
                        latencyGen = newSimpleLatencyGenerator now (Latency cfg),
                        nextConnId = 0,
                        active = 0,
                        ctx = None,
                        ctxCancel = None,
                        log = l,
                        disabled = Disabled cfg,
                        activeConnections = []\<rparr>)))"

section \<open>Calls that leave lib/speedbump.go\<close>

text \<open>
  The constructor \<open>newProxyConnection\<close> and the methods \<open>start\<close>, \<open>Enable\<close> and
  \<open>Disable\<close> of a proxy connection are declared in another file of the package, and the
  logger, the listener, the sockets and the context belong to libraries. Each such call
  is recorded, in program order, as an event; what a call returns is an input of the
  function that makes it. \<open>StartOnceDo\<close> is a call of \<open>startOnce.Do\<close>, the one
  method of the package's \<open>sync.Once\<close>. \<open>proxy_args\<close> holds the nine arguments of
  \<open>newProxyConnection\<close> in the order of the call in \<open>startAcceptLoop\<close> (the two
  addresses are passed by pointer to fields that are never written after
  \<open>NewSpeedbump\<close>, so their values stand for them).
\<close>

datatype level = Debug | Info | Warn

record 'gen proxy_args =
  arg_ctx :: "go_context option"
  arg_conn :: tcp_conn
  arg_srcAddr :: tcp_addr
  arg_destAddr :: tcp_addr
  arg_bufferSize :: go_int
  arg_queueSize :: go_int
  arg_latencyGen :: "'gen"
  arg_log :: logger
  arg_enabled :: bool

datatype 'gen event =
    Log level string "logval list"
  | ListenerClose "tcp_listener option"
  | CtxCancel go_context
  | ConnClose tcp_conn
  | NewProxyConnection "'gen proxy_args"
  | GoStartAcceptLoop
  | GoStartProxyConnection connection
  | ConnStart connection
  | ConnEnable connection
  | ConnDisable connection
  | StartOnceDo

section \<open>Start\<close>

text \<open>
  \<open>listened\<close> is what \<open>net.ListenTCP("tcp", &s.srcAddr)\<close> returns and \<open>c\<close> the context
  that \<open>context.WithCancel\<close> creates; \<open>ctxCancel\<close> holds the context its function
  cancels. The result is the returned error (\<open>None\<close> for \<open>nil\<close>), the instance and
  the events. The accept loop is launched with \<open>go\<close>: Start does not run it.
\<close>

definition Start ::
  "go_error + tcp_listener \<Rightarrow> go_context \<Rightarrow> 'gen Speedbump \<Rightarrow>
   go_error option \<times> 'gen Speedbump \<times> 'gen event list" where
  "Start listened c s =
     (case listened of
        Inl err \<Rightarrow> (Some (''starting TCP listener: '' @ err), s, [])
      | Inr l \<Rightarrow>
          (None,
           s\<lparr>listener := Some l, ctx := Some c, ctxCancel := Some c\<rparr>,
           [Log Info ''Started speedbump''
              [LStr ''port'', LInt (addrPort (srcAddr s)),
               LStr ''dest'', LAddrString (destAddr s)],
            GoStartAcceptLoop]))"

section \<open>The accept loop\<close>

text \<open>
  One turn of the \<open>for\<close> loop of \<open>startAcceptLoop\<close>. The environment decides what
  \<open>AcceptTCP\<close> returns and, for an accepted socket, what \<open>newProxyConnection\<close>
  returns (it dials the destination).
\<close>

datatype accept_event =
    AcceptError go_error
  | Accepted tcp_conn "go_error + connection"

datatype loop_status = Accepting | Returned

definition proxyArgs :: "'gen Speedbump \<Rightarrow> tcp_conn \<Rightarrow> 'gen proxy_args" where
  "proxyArgs s conn =
     \<lparr>arg_ctx = ctx s,
      arg_conn = conn,
      arg_srcAddr = srcAddr s,
      arg_destAddr = destAddr s,
      arg_bufferSize = bufferSize s,
      arg_queueSize = queueSize s,
      arg_latencyGen = latencyGen s,
      arg_log = (log s)\<lparr>logWith := logWith (log s) @ [LStr ''connection'', LInt (nextConnId s)]\<rparr>,
      arg_enabled = (\<not> disabled s)\<rparr>"

definition acceptIteration ::
  "accept_event \<Rightarrow> 'gen Speedbump \<Rightarrow> loop_status \<times> 'gen Speedbump \<times> 'gen event list" where
  "acceptIteration ev s =
     (case ev of
        AcceptError err \<Rightarrow>
          if strings_Contains err ''use of closed'' then (Returned, s, [])
          else (Accepting, s,
                [Log Warn ''Accepting incoming TCP conn failed'' [LStr ''err'', LStr err]])
      | Accepted conn created \<Rightarrow>
          (case created of
             Inl err \<Rightarrow>
               (Accepting, s,
                [NewProxyConnection (proxyArgs s conn),
                 Log Warn ''Creating new proxy conn failed'' [LStr ''err'', LStr err],
                 ConnClose conn])
           | Inr p \<Rightarrow>
               (Accepting,
                s\<lparr>nextConnId := nextConnId s + 1,
                  active := active s + 1,
                  activeConnections := activeConnections s @ [p]\<rparr>,
                [NewProxyConnection (proxyArgs s conn), GoStartProxyConnection p])))"

text \<open>
  The loop, run on the answers the environment gives to its successive calls of
  \<open>AcceptTCP\<close>. It returns only on an error that contains \<open>use of closed\<close>; when the
  answers are used up it is still \<open>Accepting\<close>, blocked in \<open>AcceptTCP\<close>.
\<close>

fun startAcceptLoop ::
  "accept_event list \<Rightarrow> 'gen Speedbump \<Rightarrow> loop_status \<times> 'gen Speedbump \<times> 'gen event list" where
  "startAcceptLoop [] s = (Accepting, s, [])"
| "startAcceptLoop (ev # evs) s =
     (case acceptIteration ev s of
        (Returned, s', t) \<Rightarrow> (Returned, s', t)
      | (Accepting, s', t) \<Rightarrow>
          (case startAcceptLoop evs s' of (st, s'', t') \<Rightarrow> (st, s'', t @ t')))"

section \<open>Enable and Disable\<close>

definition Enable :: "'gen Speedbump \<Rightarrow> 'gen Speedbump \<times> 'gen event list" where
  "Enable s = (s\<lparr>disabled := False\<rparr>, map ConnEnable (activeConnections s))"

definition Disable :: "'gen Speedbump \<Rightarrow> 'gen Speedbump \<times> 'gen event list" where
  "Disable s = (s\<lparr>disabled := True\<rparr>, map ConnDisable (activeConnections s))"

section \<open>startProxyConnection and Stop\<close>

text \<open>
  \<open>sync.WaitGroup\<close>: \<open>Add(1)\<close> increments the counter (in \<open>acceptIteration\<close>),
  \<open>Done\<close> decrements it and panics when it would become negative, \<open>Wait\<close> returns
  only while the counter is zero.
\<close>

definition WaitGroupDone :: "'gen Speedbump \<Rightarrow> 'gen Speedbump option" where
  "WaitGroupDone s = (if active s - 1 < 0 then None else Some (s\<lparr>active := active s - 1\<rparr>))"

text \<open>
  \<open>startProxyConnection\<close> calls \<open>p.start()\<close> and, once that has returned, runs the
  deferred \<open>Done\<close> (\<open>None\<close>: the panic of \<open>Done\<close>).
\<close>

definition startProxyConnection ::
  "connection \<Rightarrow> 'gen Speedbump \<Rightarrow> 'gen Speedbump option \<times> 'gen event list" where
  "startProxyConnection p s = (WaitGroupDone s, [ConnStart p])"

text \<open>
  Stop up to its call of \<open>Wait\<close>. Closing a nil listener only returns an error, which
  Stop drops; calling the nil \<open>ctxCancel\<close> of an instance that was never started
  panics (\<open>Inl\<close>, with the events before the panic).
\<close>

definition StopToWait :: "'gen Speedbump \<Rightarrow> 'gen event list + 'gen event list" where
  "StopToWait s =
     (case ctxCancel s of
        None \<Rightarrow> Inl [Log Info ''Stopping speedbump'' [], ListenerClose (listener s)]
      | Some c \<Rightarrow>
          Inr [Log Info ''Stopping speedbump'' [], ListenerClose (listener s), CtxCancel c,
               Log Debug ''Waiting for active connections to be closed'' []])"

definition StopAfterWait :: "'gen event list" where
  "StopAfterWait = [Log Info ''Speedbump stopped'' []]"

datatype stop_result = StopReturns | StopBlocks | StopPanics

text \<open>Stop while no other goroutine runs: \<open>Wait\<close> returns at once or never.\<close>

definition Stop :: "'gen Speedbump \<Rightarrow> stop_result \<times> 'gen event list" where
  "Stop s =
     (case StopToWait s of
        Inl t \<Rightarrow> (StopPanics, t)
      | Inr t \<Rightarrow> if active s = 0 then (StopReturns, t @ StopAfterWait) else (StopBlocks, t))"

text \<open>The constant \<open>_maxAttempts\<close>, declared between Stop and Enable.\<close>

definition maxAttempts :: nat where
  "maxAttempts = 10"

section \<open>The goroutines together\<close>

text \<open>
  After Start the instance is shared by the goroutine of the accept loop, one
  goroutine per launched \<open>startProxyConnection\<close> and the callers of Enable, Disable
  and Stop. A world holds the instance, the events so far and where each goroutine
  stands; an action is one goroutine's next move, and a run is any interleaving of
  them. The accept loop moves in two steps, \<open>AcceptTCP\<close> returning and the rest of the
  turn, so that another goroutine can run in between. A proxy connection's goroutine
  moves in three: \<open>p.start()\<close> is called, it returns, the deferred \<open>Done\<close> runs. Stop
  moves in two, up to \<open>Wait\<close> and from the return of \<open>Wait\<close>, and is called at most
  once. Enable and Disable are one step each. A panic ends the run (\<open>crashed\<close>).

  Library behaviour assumed: once the listener has been closed \<open>AcceptTCP\<close> returns
  only errors that contain \<open>use of closed\<close>; \<open>newProxyConnection\<close> returns a pointer
  to a new object, different from every connection still referenced; \<open>p.start()\<close>
  returns when the environment lets it.
\<close>

datatype accept_pc = AtAccept | Got accept_event | LoopReturned

datatype stop_pc = NotCalled | AtWait | StopReturned

datatype proc_pc = NotLaunched | Launched | InStart | StartReturned | Finished

record 'gen world =
  sb :: "'gen Speedbump"
  trace :: "'gen event list"
  acceptLoop :: accept_pc
  stopping :: stop_pc
  procs :: "connection \<Rightarrow> proc_pc"
  crashed :: bool

datatype action =
    AcceptReturns accept_event
  | AcceptBody
  | ProxyStart connection
  | ProxyStartReturns connection
  | ProxyDone connection
  | CallEnable
  | CallDisable
  | CallStop
  | StopWaitReturns

fun useOfClosed :: "accept_event \<Rightarrow> bool" where
  "useOfClosed (AcceptError err) = strings_Contains err ''use of closed''"
| "useOfClosed (Accepted conn created) = False"

fun freshConnection :: "accept_event \<Rightarrow> connection list \<Rightarrow> bool" where
  "freshConnection (Accepted conn (Inr p)) ps = (p \<notin> set ps)"
| "freshConnection ev ps = True"

fun launch :: "'gen event \<Rightarrow> (connection \<Rightarrow> proc_pc) \<Rightarrow> (connection \<Rightarrow> proc_pc)" where
  "launch (GoStartProxyConnection p) f = f(p := Launched)"
| "launch e f = f"

definition step :: "action \<Rightarrow> 'gen world \<Rightarrow> 'gen world option" where
  "step a w =
     (if crashed w then None
      else case a of
        AcceptReturns ev \<Rightarrow>
          if acceptLoop w = AtAccept \<and> (stopping w = NotCalled \<or> useOfClosed ev)
          then Some (w\<lparr>acceptLoop := Got ev\<rparr>) else None
      | AcceptBody \<Rightarrow>
          (case acceptLoop w of
             Got ev \<Rightarrow>
               if freshConnection ev (activeConnections (sb w))
               then (case acceptIteration ev (sb w) of
                       (st, s', t) \<Rightarrow>
                         Some (w\<lparr>sb := s', trace := trace w @ t,
                                 acceptLoop := (case st of Accepting \<Rightarrow> AtAccept
                                                | Returned \<Rightarrow> LoopReturned),
                                 procs := fold launch t (procs w)\<rparr>))
               else None
           | _ \<Rightarrow> None)
      | ProxyStart p \<Rightarrow>
          if procs w p = Launched
          then Some (w\<lparr>trace := trace w @ [ConnStart p], procs := (procs w)(p := InStart)\<rparr>)
          else None
      | ProxyStartReturns p \<Rightarrow>
          if procs w p = InStart then Some (w\<lparr>procs := (procs w)(p := StartReturned)\<rparr>)
          else None
      | ProxyDone p \<Rightarrow>
          if procs w p = StartReturned
          then (case WaitGroupDone (sb w) of
                  None \<Rightarrow> Some (w\<lparr>crashed := True\<rparr>)
                | Some s' \<Rightarrow> Some (w\<lparr>sb := s', procs := (procs w)(p := Finished)\<rparr>))
          else None
      | CallEnable \<Rightarrow>
          (case Enable (sb w) of (s', t) \<Rightarrow> Some (w\<lparr>sb := s', trace := trace w @ t\<rparr>))
      | CallDisable \<Rightarrow>
          (case Disable (sb w) of (s', t) \<Rightarrow> Some (w\<lparr>sb := s', trace := trace w @ t\<rparr>))
      | CallStop \<Rightarrow>
          if stopping w = NotCalled
          then (case StopToWait (sb w) of
                  Inl t \<Rightarrow> Some (w\<lparr>trace := trace w @ t, crashed := True\<rparr>)
                | Inr t \<Rightarrow> Some (w\<lparr>trace := trace w @ t, stopping := AtWait\<rparr>))
          else None
      | StopWaitReturns \<Rightarrow>
          if stopping w = AtWait \<and> active (sb w) = 0
          then Some (w\<lparr>trace := trace w @ StopAfterWait, stopping := StopReturned\<rparr>)
          else None)"

fun run :: "action list \<Rightarrow> 'gen world \<Rightarrow> 'gen world option" where
  "run [] w = Some w"
| "run (a # as) w = (case step a w of None \<Rightarrow> None | Some w' \<Rightarrow> run as w')"

text \<open>The world right after a successful Start on listener \<open>l\<close> with context \<open>c\<close>.\<close>

definition boot :: "tcp_listener \<Rightarrow> go_context \<Rightarrow> 'gen Speedbump \<Rightarrow> 'gen world" where
  "boot l c s =
     (case Start (Inr l) c s of
        (err, s', t) \<Rightarrow>
          \<lparr>sb = s', trace = t, acceptLoop = AtAccept, stopping = NotCalled,
           procs = (\<lambda>p. NotLaunched), crashed = False\<rparr>)"

text \<open>The value of \<open>disabled\<close> that the Enable and Disable calls of a run leave.\<close>

fun lastToggle :: "action list \<Rightarrow> bool \<Rightarrow> bool" where
  "lastToggle [] d = d"
| "lastToggle (CallEnable # as) d = lastToggle as False"
| "lastToggle (CallDisable # as) d = lastToggle as True"
| "lastToggle (a # as) d = lastToggle as d"

text \<open>Counting, in a list of events or of answers, what concerns one client socket.\<close>

fun isCreationOf :: "tcp_conn \<Rightarrow> 'gen event \<Rightarrow> bool" where
  "isCreationOf conn (NewProxyConnection args) = (arg_conn args = conn)"
| "isCreationOf conn e = False"

fun isAcceptOf :: "tcp_conn \<Rightarrow> accept_event \<Rightarrow> bool" where
  "isAcceptOf conn (Accepted conn' created) = (conn' = conn)"
| "isAcceptOf conn ev = False"

fun isFailedCreationOf :: "tcp_conn \<Rightarrow> accept_event \<Rightarrow> bool" where
  "isFailedCreationOf conn (Accepted conn' (Inl err)) = (conn' = conn)"
| "isFailedCreationOf conn ev = False"

text \<open>The answers the loop gets to see: those before the first closing error.\<close>

definition handled :: "accept_event list \<Rightarrow> accept_event list" where
  "handled evs = takeWhile (\<lambda>ev. \<not> useOfClosed ev) evs"

text \<open>
  The accesses to \<open>s.activeConnections\<close> after NewSpeedbump. The accept loop writes
  it, in the turn where \<open>newProxyConnection\<close> succeeded (\<open>append\<close>); Enable and
  Disable read it (\<open>range\<close>), each in the goroutine of its caller. The file takes no
  lock and uses no channel, so nothing but the place of its goroutine decides whether
  a step is possible. The registry is raced for in a world where the writing step and
  a reading step are both possible.
\<close>

fun writesRegistry :: "action \<Rightarrow> 'gen world \<Rightarrow> bool" where
  "writesRegistry AcceptBody w =
     (case acceptLoop w of Got (Accepted conn (Inr p)) \<Rightarrow> True | _ \<Rightarrow> False)"
| "writesRegistry a w = False"

fun readsRegistry :: "action \<Rightarrow> bool" where
  "readsRegistry CallEnable = True"
| "readsRegistry CallDisable = True"
| "readsRegistry a = False"

definition possible :: "action \<Rightarrow> 'gen world \<Rightarrow> bool" where
  "possible a w = (case step a w of None \<Rightarrow> False | Some w' \<Rightarrow> True)"

definition registryRace :: "'gen world \<Rightarrow> bool" where
  "registryRace w =
     (writesRegistry AcceptBody w \<and> possible AcceptBody w \<and>
      list_ex (\<lambda>b. readsRegistry b \<and> possible b w) [CallEnable, CallDisable])"

fun isWarn :: "'gen event \<Rightarrow> bool" where
  "isWarn (Log Warn msg args) = True"
| "isWarn e = False"

fun isFailure :: "accept_event \<Rightarrow> bool" where
  "isFailure (AcceptError err) = True"
| "isFailure (Accepted conn (Inl err)) = True"
| "isFailure ev = False"

text \<open>
  The answers that \<open>AcceptTCP\<close> has returned to the accept loop in a run, one per
  call, and the answer the loop holds but has not handled yet.
\<close>

fun answers :: "action list \<Rightarrow> accept_event list" where
  "answers [] = []"
| "answers (AcceptReturns ev # as) = ev # answers as"
| "answers (a # as) = answers as"

fun pending :: "accept_pc \<Rightarrow> accept_event list" where
  "pending (Got ev) = [ev]"
| "pending pc = []"

text \<open>
  \<open>p.start()\<close> has been called once for each connection whose goroutine is past the
  call, and for no other; \<open>startOnce.Do\<close> has not been called.
\<close>

definition startedOnce :: "'gen world \<Rightarrow> bool" where
  "startedOnce w =
     ((\<forall>p. count_list (trace w) (ConnStart p) =
            (if procs w p = NotLaunched \<or> procs w p = Launched then 0 else 1)) \<and>
      StartOnceDo \<notin> set (trace w))"

text \<open>
  The launched connections whose goroutine has not yet run \<open>Done\<close>, and what every
  world of a run satisfies (shown below): the counter of the WaitGroup is the number
  of those connections.
\<close>

definition live :: "(connection \<Rightarrow> proc_pc) \<Rightarrow> connection list \<Rightarrow> connection list" where
  "live f ps = filter (\<lambda>p. f p \<noteq> Finished) ps"

definition consistent :: "tcp_listener \<Rightarrow> go_context \<Rightarrow> 'gen world \<Rightarrow> bool" where
  "consistent l c w =
     (\<not> crashed w \<and> listener (sb w) = Some l \<and> ctx (sb w) = Some c \<and>
      ctxCancel (sb w) = Some c \<and>
      distinct (activeConnections (sb w)) \<and>
      (\<forall>p. (p \<in> set (activeConnections (sb w))) = (procs w p \<noteq> NotLaunched)) \<and>
      active (sb w) = int (length (live (procs w) (activeConnections (sb w)))) \<and>
      (\<forall>args. NewProxyConnection args \<in> set (trace w) \<longrightarrow> arg_ctx args = Some c))"

section \<open>Fixtures\<close>

definition loopback :: "nat \<Rightarrow> tcp_addr" where
  "loopback port = \<lparr>addrIP = [127, 0, 0, 1], addrPort = of_nat port, addrZone = []\<rparr>"

definition resolveLocal :: "string \<Rightarrow> string \<Rightarrow> go_error + tcp_addr" where
  "resolveLocal network address =
     (if address = ''127.0.0.1:8000'' then Inr (loopback 8000)
      else if address = ''127.0.0.1:9000'' then Inr (loopback 9000)
      else Inl (''lookup '' @ address @ '': no such host''))"

definition constGen :: "time \<Rightarrow> nat \<Rightarrow> time \<times> nat" where
  "constGen start latency = (start, latency)"

definition cfg0 :: "nat SpeedbumpCfg" where
  "cfg0 = \<lparr>Host = ''127.0.0.1'', Port = 8000, DestAddr = ''127.0.0.1:9000'',
           BufferSize = 65535, QueueSize = 0, Latency = 100, LogLevel = ''INFO'',
           Disabled = False\<rparr>"

definition cfgBad :: "nat SpeedbumpCfg" where
  "cfgBad = cfg0\<lparr>BufferSize := 0, QueueSize := - 3\<rparr>"

definition cfgSized :: "nat SpeedbumpCfg" where
  "cfgSized = cfg0\<lparr>QueueSize := 64\<rparr>"

definition cfgLost :: "nat SpeedbumpCfg" where
  "cfgLost = cfg0\<lparr>DestAddr := ''nowhere:1''\<rparr>"

definition sb0 :: "(time \<times> nat) Speedbump" where
  "sb0 = \<lparr>bufferSize = 65535, queueSize = 1024, srcAddr = loopback 8000,
          destAddr = loopback 9000, listener = None, latencyGen = (7, 100),
          nextConnId = 0, active = 0, ctx = None, ctxCancel = None,
          log = \<lparr>logLevel = ''INFO'', logWith = []\<rparr>, disabled = False,
          activeConnections = []\<rparr>"

definition sb1 :: "(time \<times> nat) Speedbump" where
  "sb1 = sb0\<lparr>listener := Some 1, ctx := Some 2, ctxCancel := Some 2\<rparr>"

text \<open>
  One client is accepted and served; Stop is called while it runs, and the connection
  ends before \<open>Wait\<close> returns.
\<close>

definition demoActs :: "action list" where
  "demoActs = [AcceptReturns (Accepted 5 (Inr 10)), AcceptBody, ProxyStart 10, CallStop,
               ProxyStartReturns 10, ProxyDone 10]"

definition demoWorld :: "(time \<times> nat) world" where
  "demoWorld =
     \<lparr>sb = sb1\<lparr>nextConnId := 1, activeConnections := [10]\<rparr>,
      trace = [Log Info ''Started speedbump''
                 [LStr ''port'', LInt 8000, LStr ''dest'', LAddrString (loopback 9000)],
               GoStartAcceptLoop,
               NewProxyConnection (proxyArgs sb1 5),
               GoStartProxyConnection 10,
               ConnStart 10,
               Log Info ''Stopping speedbump'' [],
               ListenerClose (Some 1),
               CtxCancel 2,
               Log Debug ''Waiting for active connections to be closed'' []],
      acceptLoop = AtAccept, stopping = AtWait,
      procs = (\<lambda>p. NotLaunched)(10 := Finished), crashed = False\<rparr>"

text \<open>Disable is called, then a client arrives.\<close>

definition toggleActs :: "action list" where
  "toggleActs = [CallDisable, AcceptReturns (Accepted 5 (Inr 10))]"

definition toggleWorld :: "(time \<times> nat) world" where
  "toggleWorld =
     \<lparr>sb = sb1\<lparr>disabled := True\<rparr>,
      trace = [Log Info ''Started speedbump''
                 [LStr ''port'', LInt 8000, LStr ''dest'', LAddrString (loopback 9000)],
               GoStartAcceptLoop],
      acceptLoop = Got (Accepted 5 (Inr 10)), stopping = NotCalled,
      procs = (\<lambda>p. NotLaunched), crashed = False\<rparr>"

text \<open>A client has been accepted; the accept loop is about to create its connection.\<close>

definition raceWorld :: "(time \<times> nat) world" where
  "raceWorld =
     \<lparr>sb = sb1,
      trace = [Log Info ''Started speedbump''
                 [LStr ''port'', LInt 8000, LStr ''dest'', LAddrString (loopback 9000)],
               GoStartAcceptLoop],
      acceptLoop = Got (Accepted 5 (Inr 10)), stopping = NotCalled,
      procs = (\<lambda>p. NotLaunched), crashed = False\<rparr>"

text \<open>
  A client is accepted just before Stop closes the listener, and the accept loop goes
  on with it only after Stop has returned.
\<close>

definition lateActs :: "action list" where
  "lateActs = [AcceptReturns (Accepted 5 (Inr 10)), CallStop, StopWaitReturns, AcceptBody,
               ProxyStart 10]"

text \<open>
  The destination refuses the first client; the second is served and its connection
  ends.
\<close>

definition retryActs :: "action list" where
  "retryActs =
     [AcceptReturns (Accepted 5 (Inl ''connection refused'')), AcceptBody,
      AcceptReturns (Accepted 6 (Inr 11)), AcceptBody,
      ProxyStart 11, ProxyStartReturns 11, ProxyDone 11]"

definition retryWorld :: "(time \<times> nat) world" where
  "retryWorld =
     \<lparr>sb = sb1\<lparr>nextConnId := 1, activeConnections := [11]\<rparr>,
      trace = [Log Info ''Started speedbump''
                 [LStr ''port'', LInt 8000, LStr ''dest'', LAddrString (loopback 9000)],
               GoStartAcceptLoop,
               NewProxyConnection (proxyArgs sb1 5),
               Log Warn ''Creating new proxy conn failed''
                 [LStr ''err'', LStr ''connection refused''],
               ConnClose 5,
               NewProxyConnection (proxyArgs sb1 6),
               GoStartProxyConnection 11,
               ConnStart 11],
      acceptLoop = AtAccept, stopping = NotCalled,
      procs = (\<lambda>p. NotLaunched)(11 := Finished), crashed = False\<rparr>"

text \<open>The answers of a short session of the accept loop.\<close>

definition sessionEvents :: "accept_event list" where
  "sessionEvents =
     [Accepted 5 (Inl ''error dialing remote address: connection refused''),
      AcceptError ''accept tcp 127.0.0.1:8000: accept4: too many open files'',
      Accepted 6 (Inr 11),
      AcceptError ''accept tcp 127.0.0.1:8000: use of closed network connection'']"

definition sessionTrace :: "(time \<times> nat) event list" where
  "sessionTrace =
     [NewProxyConnection (proxyArgs sb1 5),
      Log Warn ''Creating new proxy conn failed''
        [LStr ''err'', LStr ''error dialing remote address: connection refused''],
      ConnClose 5,
      Log Warn ''Accepting incoming TCP conn failed''
        [LStr ''err'', LStr ''accept tcp 127.0.0.1:8000: accept4: too many open files''],
      NewProxyConnection (proxyArgs sb1 6),
      GoStartProxyConnection 11]"

section \<open>Properties of NewSpeedbump\<close>

lemma digits10_small: "n < 10 \<Longrightarrow> digits10 n = [''0123456789'' ! n]"
  by (subst digits10.simps) simp

lemma digits10_large:
  "\<not> n < 10 \<Longrightarrow> digits10 n = digits10 (n div 10) @ [''0123456789'' ! (n mod 10)]"
  by (subst digits10.simps) simp

lemmas fmt_eval = fmt_d_def digits10_small digits10_large

lemma cfg0_local: "localAddress cfg0 = ''127.0.0.1:8000''"
  by (simp add: localAddress_def cfg0_def fmt_eval)

text \<open>
  C2. For every configuration: an instance that NewSpeedbump returns has queueSize 1024
  if the configuration leaves QueueSize at zero, and the configuration's QueueSize
  otherwise; and NewSpeedbump does return such an instance whenever the two addresses
  resolve, whatever QueueSize is.
\<close>

theorem NewSpeedbump_queueSize:
  "(\<forall>s. NewSpeedbump R G now cfg = Inr s \<longrightarrow>
        queueSize s = (if QueueSize cfg = 0 then 1024 else QueueSize cfg)) \<and>
   (\<forall>a b. R ''tcp'' (localAddress cfg) = Inr a \<longrightarrow> R ''tcp'' (DestAddr cfg) = Inr b \<longrightarrow>
        (\<exists>s. NewSpeedbump R G now cfg = Inr s \<and>
             queueSize s = (if QueueSize cfg = 0 then 1024 else QueueSize cfg)))"
  by (auto simp: NewSpeedbump_def Let_def split: sum.splits)

lemma resolveLocal_src: "resolveLocal ''tcp'' (localAddress cfg0) = Inr (loopback 8000)"
  by (simp add: cfg0_local resolveLocal_def)

lemma resolveLocal_dest: "resolveLocal ''tcp'' (DestAddr cfg0) = Inr (loopback 9000)"
  by (simp add: cfg0_def resolveLocal_def)

lemma NewSpeedbump_cfg0: "NewSpeedbump resolveLocal constGen 7 cfg0 = Inr sb0"
  unfolding NewSpeedbump_def resolveLocal_src resolveLocal_dest
  by (simp add: cfg0_def sb0_def constGen_def)

lemma cfgSized_local: "localAddress cfgSized = ''127.0.0.1:8000''"
  by (simp add: localAddress_def cfgSized_def cfg0_def fmt_eval)

lemma resolveLocal_Sized_src:
  "resolveLocal ''tcp'' (localAddress cfgSized) = Inr (loopback 8000)"
  by (simp add: cfgSized_local resolveLocal_def)

lemma resolveLocal_Sized_dest: "resolveLocal ''tcp'' (DestAddr cfgSized) = Inr (loopback 9000)"
  by (simp add: cfgSized_def cfg0_def resolveLocal_def)

theorem NewSpeedbump_queueSize_witness:
  "NewSpeedbump resolveLocal constGen 7 cfg0 = Inr sb0 \<and> QueueSize cfg0 = 0 \<and>
   queueSize sb0 = 1024 \<and>
   resolveLocal ''tcp'' (localAddress cfgSized) = Inr (loopback 8000) \<and>
   resolveLocal ''tcp'' (DestAddr cfgSized) = Inr (loopback 9000) \<and>
   QueueSize cfgSized = 64 \<and>
   (\<exists>s. NewSpeedbump resolveLocal constGen 7 cfgSized = Inr s \<and> queueSize s = 64)"
proof -
  have z: "QueueSize cfg0 = 0" and n: "QueueSize cfgSized = 64"
    by (simp_all add: cfgSized_def cfg0_def)
  from NewSpeedbump_queueSize [of resolveLocal constGen 7 cfg0] NewSpeedbump_cfg0 z
  have a: "queueSize sb0 = 1024" by simp
  from NewSpeedbump_queueSize [of resolveLocal constGen 7 cfgSized]
    resolveLocal_Sized_src resolveLocal_Sized_dest n
  have b: "\<exists>s. NewSpeedbump resolveLocal constGen 7 cfgSized = Inr s \<and> queueSize s = 64"
    by simp
  from a b z n NewSpeedbump_cfg0 resolveLocal_Sized_src resolveLocal_Sized_dest
  show ?thesis by simp
qed

lemma cfgBad_local: "localAddress cfgBad = ''127.0.0.1:8000''"
  by (simp add: localAddress_def cfgBad_def cfg0_def fmt_eval)

lemma resolveLocal_Bad_src: "resolveLocal ''tcp'' (localAddress cfgBad) = Inr (loopback 8000)"
  by (simp add: cfgBad_local resolveLocal_def)

lemma resolveLocal_Bad_dest: "resolveLocal ''tcp'' (DestAddr cfgBad) = Inr (loopback 9000)"
  by (simp add: cfgBad_def cfg0_def resolveLocal_def)

text \<open>
  C3, as stated, fails: a configuration whose BufferSize is zero and whose QueueSize is
  negative, with two addresses that resolve, is accepted, and the instance carries both
  values.
\<close>

theorem NewSpeedbump_validates_counterexample:
  "sint (BufferSize cfgBad) \<le> 0 \<and> sint (QueueSize cfgBad) < 0 \<and>
   NewSpeedbump resolveLocal constGen 7 cfgBad = Inr (sb0\<lparr>bufferSize := 0, queueSize := - 3\<rparr>)"
  unfolding NewSpeedbump_def resolveLocal_Bad_src resolveLocal_Bad_dest
  by (simp add: cfgBad_def cfg0_def sb0_def constGen_def)

text \<open>
  C3, amended. NewSpeedbump does not check the sizing parameters: whenever the local
  and the destination address resolve, it returns an instance whose bufferSize is the
  configuration's BufferSize and whose queueSize is the configuration's QueueSize (1024
  when that is zero), whatever their sign.
\<close>

theorem NewSpeedbump_sizes_unchecked:
  "R ''tcp'' (localAddress cfg) = Inr a \<Longrightarrow>
   R ''tcp'' (DestAddr cfg) = Inr b \<Longrightarrow>
   \<exists>s. NewSpeedbump R G now cfg = Inr s \<and> bufferSize s = BufferSize cfg \<and>
       queueSize s = (if QueueSize cfg = 0 then 1024 else QueueSize cfg)"
  by (simp add: NewSpeedbump_def Let_def)

theorem NewSpeedbump_sizes_unchecked_witness:
  "resolveLocal ''tcp'' (localAddress cfgBad) = Inr (loopback 8000) \<and>
   resolveLocal ''tcp'' (DestAddr cfgBad) = Inr (loopback 9000) \<and>
   (\<exists>s. NewSpeedbump resolveLocal constGen 7 cfgBad = Inr s \<and> bufferSize s = 0 \<and>
        queueSize s = - 3)"
  using NewSpeedbump_sizes_unchecked
          [of resolveLocal cfgBad "loopback 8000" "loopback 9000" constGen 7]
    resolveLocal_Bad_src resolveLocal_Bad_dest
  by (simp add: cfgBad_def cfg0_def)

text \<open>
  C5. NewSpeedbump returns an error exactly when the local address or the destination
  address does not resolve; the error then carries the resolver's message, prefixed
  with which of the two addresses failed, and no instance is returned, so there is
  nothing to start.
\<close>

theorem NewSpeedbump_fails_iff_unresolved:
  "isl (NewSpeedbump R G now cfg) =
     (isl (R ''tcp'' (localAddress cfg)) \<or> isl (R ''tcp'' (DestAddr cfg)))
   \<and> (\<forall>e. NewSpeedbump R G now cfg = Inl e \<longrightarrow>
         (\<exists>err. R ''tcp'' (localAddress cfg) = Inl err \<and>
                e = ''Error resolving local address: '' @ err) \<or>
         (\<exists>a err. R ''tcp'' (localAddress cfg) = Inr a \<and>
                R ''tcp'' (DestAddr cfg) = Inl err \<and>
                e = ''Error resolving destination address: '' @ err))"
  by (auto simp: NewSpeedbump_def Let_def split: sum.splits)

lemma NewSpeedbump_cfgLost:
  "NewSpeedbump resolveLocal constGen 7 cfgLost =
     Inl ''Error resolving destination address: lookup nowhere:1: no such host''"
  by (simp add: NewSpeedbump_def resolveLocal_def localAddress_def cfgLost_def cfg0_def
      fmt_eval)

theorem NewSpeedbump_fails_iff_unresolved_witness:
  "NewSpeedbump resolveLocal constGen 7 cfgLost =
     Inl ''Error resolving destination address: lookup nowhere:1: no such host'' \<and>
   resolveLocal ''tcp'' (localAddress cfgLost) = Inr (loopback 8000) \<and>
   resolveLocal ''tcp'' (DestAddr cfgLost) = Inl ''lookup nowhere:1: no such host''"
  using NewSpeedbump_fails_iff_unresolved [of resolveLocal constGen 7 cfgLost]
    NewSpeedbump_cfgLost
  by (simp add: resolveLocal_def localAddress_def cfgLost_def cfg0_def fmt_eval)

section \<open>Properties of Start\<close>

text \<open>
  C7. Start returns an error exactly when \<open>net.ListenTCP\<close> fails, and then changes
  nothing. When the listener is created, Start stores it with a new context, logs,
  launches the accept loop as a goroutine and returns nil: it handles no connection
  itself, and the bookkeeping of connections is as it was.
\<close>

theorem Start_error_iff_listen_fails:
  "Start listened c s = (err, s', t) \<Longrightarrow>
     (err \<noteq> None) = isl listened \<and>
     (\<forall>e. listened = Inl e \<longrightarrow>
        err = Some (''starting TCP listener: '' @ e) \<and> s' = s \<and> t = []) \<and>
     (\<forall>l. listened = Inr l \<longrightarrow>
        err = None \<and> listener s' = Some l \<and> ctx s' = Some c \<and> ctxCancel s' = Some c \<and>
        t = [Log Info ''Started speedbump''
               [LStr ''port'', LInt (addrPort (srcAddr s)),
                LStr ''dest'', LAddrString (destAddr s)],
             GoStartAcceptLoop] \<and>
        activeConnections s' = activeConnections s \<and> active s' = active s \<and>
        nextConnId s' = nextConnId s)"
  by (auto simp: Start_def split: sum.splits)

lemma Start_sb0:
  "Start (Inr 1) 2 sb0 =
     (None, sb1,
      [Log Info ''Started speedbump''
         [LStr ''port'', LInt 8000, LStr ''dest'', LAddrString (loopback 9000)],
       GoStartAcceptLoop])"
  by (simp add: Start_def sb0_def sb1_def loopback_def)

lemma Start_sb0_fails:
  "Start (Inl ''listen tcp 127.0.0.1:8000: bind: address already in use'') 2 sb0 =
     (Some ''starting TCP listener: listen tcp 127.0.0.1:8000: bind: address already in use'',
      sb0, [])"
  by (simp add: Start_def)

theorem Start_error_iff_listen_fails_witness:
  "Start (Inr 1) 2 sb0 =
     (None, sb1,
      [Log Info ''Started speedbump''
         [LStr ''port'', LInt 8000, LStr ''dest'', LAddrString (loopback 9000)],
       GoStartAcceptLoop]) \<and>
   listener sb1 = Some 1 \<and> activeConnections sb1 = activeConnections sb0 \<and>
   Start (Inl ''listen tcp 127.0.0.1:8000: bind: address already in use'') 2 sb0 =
     (Some ''starting TCP listener: listen tcp 127.0.0.1:8000: bind: address already in use'',
      sb0, [])"
  using Start_error_iff_listen_fails [OF Start_sb0]
    Start_error_iff_listen_fails [OF Start_sb0_fails] Start_sb0 Start_sb0_fails
  by simp

section \<open>Properties of the accept loop\<close>

text \<open>
  C6. When \<open>newProxyConnection\<close> fails for an accepted client, the turn of the loop
  logs one warning and closes that client's socket; the instance is unchanged and the
  loop goes on accepting, so that the loop handles the answers that follow exactly as
  it would without the failed client. Among the goroutines, the step changes nothing
  but the events and the place of the accept loop.
\<close>

theorem failed_creation_is_isolated:
  "acceptIteration (Accepted conn (Inl err)) s =
     (Accepting, s,
      [NewProxyConnection (proxyArgs s conn),
       Log Warn ''Creating new proxy conn failed'' [LStr ''err'', LStr err],
       ConnClose conn]) \<and>
   startAcceptLoop (Accepted conn (Inl err) # evs) s =
     (case startAcceptLoop evs s of
        (st, s', t) \<Rightarrow>
          (st, s',
           [NewProxyConnection (proxyArgs s conn),
            Log Warn ''Creating new proxy conn failed'' [LStr ''err'', LStr err],
            ConnClose conn] @ t)) \<and>
   (\<not> crashed w \<and> acceptLoop w = Got (Accepted conn (Inl err)) \<longrightarrow>
      step AcceptBody w =
        Some (w\<lparr>trace := trace w @
                  [NewProxyConnection (proxyArgs (sb w) conn),
                   Log Warn ''Creating new proxy conn failed'' [LStr ''err'', LStr err],
                   ConnClose conn],
                acceptLoop := AtAccept\<rparr>))"
  by (auto simp: acceptIteration_def step_def split: prod.splits)

lemma startAcceptLoop_session:
  "startAcceptLoop sessionEvents sb1 =
     (Returned, sb1\<lparr>nextConnId := 1, active := 1, activeConnections := [11]\<rparr>, sessionTrace)"
  by (simp add: sessionEvents_def sessionTrace_def acceptIteration_def proxyArgs_def sb1_def
      sb0_def)

theorem failed_creation_is_isolated_witness:
  "\<not> crashed (toggleWorld\<lparr>acceptLoop := Got (Accepted 5 (Inl ''connection refused''))\<rparr>) \<and>
   acceptLoop (toggleWorld\<lparr>acceptLoop := Got (Accepted 5 (Inl ''connection refused''))\<rparr>) =
     Got (Accepted 5 (Inl ''connection refused'')) \<and>
   step AcceptBody (toggleWorld\<lparr>acceptLoop := Got (Accepted 5 (Inl ''connection refused''))\<rparr>) =
     Some (toggleWorld\<lparr>trace := trace toggleWorld @
                  [NewProxyConnection (proxyArgs (sb toggleWorld) 5),
                   Log Warn ''Creating new proxy conn failed''
                     [LStr ''err'', LStr ''connection refused''],
                   ConnClose 5],
                acceptLoop := AtAccept\<rparr>)"
  using failed_creation_is_isolated
          [of 5 "''connection refused''" sb1 "[]"
             "toggleWorld\<lparr>acceptLoop := Got (Accepted 5 (Inl ''connection refused''))\<rparr>"]
  by (simp add: toggleWorld_def)

lemma startAcceptLoop_counts:
  "startAcceptLoop evs s = (st, s', t) \<Longrightarrow>
     length (filter (isCreationOf conn) t) = length (filter (isAcceptOf conn) (handled evs)) \<and>
     length (filter (\<lambda>e. e = ConnClose conn) t) =
       length (filter (isFailedCreationOf conn) (handled evs)) \<and>
     length (filter isWarn t) = length (filter isFailure (handled evs))"
proof (induction evs arbitrary: s st s' t)
  case Nil
  then show ?case by (simp add: handled_def)
next
  case (Cons ev evs)
  show ?case
  proof (cases ev)
    case (AcceptError err)
    show ?thesis
    proof (cases "strings_Contains err ''use of closed''")
      case True
      with Cons.prems AcceptError show ?thesis
        by (simp add: acceptIteration_def handled_def)
    next
      case False
      obtain st1 s1 t1 where r: "startAcceptLoop evs s = (st1, s1, t1)"
        by (cases "startAcceptLoop evs s") auto
      from Cons.prems AcceptError False r
      have t: "t = Log Warn ''Accepting incoming TCP conn failed'' [LStr ''err'', LStr err] # t1"
        by (simp add: acceptIteration_def)
      from Cons.IH [OF r] t AcceptError False show ?thesis
        by (simp add: handled_def)
    qed
  next
    case (Accepted c created)
    show ?thesis
    proof (cases created)
      case (Inl err)
      obtain st1 s1 t1 where r: "startAcceptLoop evs s = (st1, s1, t1)"
        by (cases "startAcceptLoop evs s") auto
      from Cons.prems Accepted Inl r
      have t: "t = [NewProxyConnection (proxyArgs s c),
                    Log Warn ''Creating new proxy conn failed'' [LStr ''err'', LStr err],
                    ConnClose c] @ t1"
        by (simp add: acceptIteration_def)
      from Cons.IH [OF r] t Accepted Inl show ?thesis
        by (auto simp: handled_def proxyArgs_def)
    next
      case (Inr p)
      define s2 where "s2 = s\<lparr>nextConnId := nextConnId s + 1, active := active s + 1,
                             activeConnections := activeConnections s @ [p]\<rparr>"
      obtain st1 s1 t1 where r: "startAcceptLoop evs s2 = (st1, s1, t1)"
        by (cases "startAcceptLoop evs s2") auto
      from Cons.prems Accepted Inr r
      have t: "t = [NewProxyConnection (proxyArgs s c), GoStartProxyConnection p] @ t1"
        by (simp add: acceptIteration_def s2_def)
      from Cons.IH [OF r] t Accepted Inr show ?thesis
        by (auto simp: handled_def proxyArgs_def)
    qed
  qed
qed

section \<open>What every run preserves\<close>

lemma live_upd_other: "p \<notin> set ps \<Longrightarrow> live (f(p := v)) ps = live f ps"
  by (induction ps) (auto simp: live_def)

lemma live_upd_alive: "f p \<noteq> Finished \<Longrightarrow> v \<noteq> Finished \<Longrightarrow> live (f(p := v)) ps = live f ps"
  by (induction ps) (auto simp: live_def)

lemma live_upd_finished:
  "distinct ps \<Longrightarrow> p \<in> set ps \<Longrightarrow> f p \<noteq> Finished \<Longrightarrow>
   length (live f ps) = Suc (length (live (f(p := Finished)) ps))"
proof (induction ps)
  case Nil
  then show ?case by simp
next
  case (Cons q ps)
  show ?case
  proof (cases "q = p")
    case True
    with Cons.prems have "p \<notin> set ps" by simp
    then have "live (f(p := Finished)) ps = live f ps" by (rule live_upd_other)
    with True Cons.prems show ?thesis by (simp add: live_def)
  next
    case False
    with Cons show ?thesis by (simp add: live_def)
  qed
qed

lemma live_append: "live f (ps @ qs) = live f ps @ live f qs"
  by (simp add: live_def)

lemma consistent_boot:
  assumes "NewSpeedbump R G now cfg = Inr s"
  shows "consistent l c (boot l c s)"
proof -
  from assms have "active s = 0" "activeConnections s = []"
    by (auto simp: NewSpeedbump_def Let_def split: sum.splits)
  then show ?thesis
    by (simp add: consistent_def boot_def Start_def live_def)
qed

lemma consistent_AcceptReturns:
  "consistent l c w \<Longrightarrow> step (AcceptReturns ev) w = Some w' \<Longrightarrow> consistent l c w'"
  by (auto simp: consistent_def step_def split: if_splits)

lemma consistent_AcceptBody:
  assumes "consistent l c w" and "step AcceptBody w = Some w'"
  shows "consistent l c w'"
proof -
  from assms obtain ev where got: "acceptLoop w = Got ev"
    and fresh: "freshConnection ev (activeConnections (sb w))"
    by (auto simp: step_def consistent_def split: accept_pc.splits if_splits)
  show ?thesis
  proof (cases ev)
    case (AcceptError err)
    with assms got show ?thesis
      by (auto simp: consistent_def step_def acceptIteration_def split: if_splits)
  next
    case (Accepted conn created)
    show ?thesis
    proof (cases created)
      case (Inl err)
      with assms got Accepted show ?thesis
        by (auto simp: consistent_def step_def acceptIteration_def proxyArgs_def)
    next
      case (Inr p)
      with fresh Accepted have new: "p \<notin> set (activeConnections (sb w))" by simp
      from assms(1) new have notl: "procs w p = NotLaunched"
        by (simp add: consistent_def)
      from assms got Accepted Inr new
      have w': "w' = w\<lparr>sb := (sb w)\<lparr>nextConnId := nextConnId (sb w) + 1,
                                    active := active (sb w) + 1,
                                    activeConnections := activeConnections (sb w) @ [p]\<rparr>,
                       trace := trace w @ [NewProxyConnection (proxyArgs (sb w) conn),
                                           GoStartProxyConnection p],
                       acceptLoop := AtAccept,
                       procs := (procs w)(p := Launched)\<rparr>"
        by (simp add: step_def consistent_def acceptIteration_def)
      have "live ((procs w)(p := Launched)) (activeConnections (sb w) @ [p]) =
            live (procs w) (activeConnections (sb w)) @ [p]"
        using new by (simp add: live_append live_upd_other) (simp add: live_def)
      with assms(1) new notl show ?thesis
        unfolding w' by (auto simp: consistent_def proxyArgs_def)
    qed
  qed
qed

lemma consistent_ProxyStart:
  "consistent l c w \<Longrightarrow> step (ProxyStart p) w = Some w' \<Longrightarrow> consistent l c w'"
  by (auto simp: consistent_def step_def live_upd_alive split: if_splits)

lemma consistent_ProxyStartReturns:
  "consistent l c w \<Longrightarrow> step (ProxyStartReturns p) w = Some w' \<Longrightarrow> consistent l c w'"
  by (auto simp: consistent_def step_def live_upd_alive split: if_splits)

text \<open>The counter is positive whenever a goroutine reaches \<open>Done\<close>: no run panics there.\<close>

lemma consistent_ProxyDone:
  assumes "consistent l c w" and "step (ProxyDone p) w = Some w'"
  shows "consistent l c w'"
proof -
  from assms have pc: "procs w p = StartReturned"
    by (auto simp: step_def consistent_def split: if_splits)
  with assms(1) have mem: "p \<in> set (activeConnections (sb w))"
    and dist: "distinct (activeConnections (sb w))"
    by (auto simp: consistent_def)
  from pc have alive: "procs w p \<noteq> Finished" by simp
  have len: "length (live (procs w) (activeConnections (sb w))) =
             Suc (length (live ((procs w)(p := Finished)) (activeConnections (sb w))))"
    using dist mem alive by (rule live_upd_finished)
  with assms(1) have pos: "\<not> active (sb w) - 1 < 0"
    by (simp add: consistent_def)
  with assms pc have w': "w' = w\<lparr>sb := (sb w)\<lparr>active := active (sb w) - 1\<rparr>,
                                 procs := (procs w)(p := Finished)\<rparr>"
    by (simp add: step_def consistent_def WaitGroupDone_def)
  from assms(1) len pc show ?thesis
    unfolding w' by (auto simp: consistent_def)
qed

lemma consistent_CallEnable:
  "consistent l c w \<Longrightarrow> step CallEnable w = Some w' \<Longrightarrow> consistent l c w'"
  by (auto simp: consistent_def step_def Enable_def split: if_splits)

lemma consistent_CallDisable:
  "consistent l c w \<Longrightarrow> step CallDisable w = Some w' \<Longrightarrow> consistent l c w'"
  by (auto simp: consistent_def step_def Disable_def split: if_splits)

lemma consistent_CallStop:
  "consistent l c w \<Longrightarrow> step CallStop w = Some w' \<Longrightarrow> consistent l c w'"
  by (auto simp: consistent_def step_def StopToWait_def split: if_splits)

lemma consistent_StopWaitReturns:
  "consistent l c w \<Longrightarrow> step StopWaitReturns w = Some w' \<Longrightarrow> consistent l c w'"
  by (auto simp: consistent_def step_def StopAfterWait_def split: if_splits)

lemma consistent_step:
  "consistent l c w \<Longrightarrow> step a w = Some w' \<Longrightarrow> consistent l c w'"
  by (cases a)
     (blast intro: consistent_AcceptReturns consistent_AcceptBody consistent_ProxyStart
        consistent_ProxyStartReturns consistent_ProxyDone consistent_CallEnable
        consistent_CallDisable consistent_CallStop consistent_StopWaitReturns)+

lemma consistent_run:
  "consistent l c w \<Longrightarrow> run acts w = Some w' \<Longrightarrow> consistent l c w'"
proof (induction acts arbitrary: w)
  case Nil
  then show ?case by simp
next
  case (Cons a acts)
  then show ?case
    by (auto split: option.splits dest: consistent_step)
qed

text \<open>
  The steps of one goroutine, taken without interruption, are the function of the
  source they come from.
\<close>

lemma Stop_steps:
  assumes "run [CallStop, StopWaitReturns] w = Some w'"
  shows "\<exists>t. Stop (sb w) = (StopReturns, t) \<and> trace w' = trace w @ t \<and> sb w' = sb w"
  using assms
  by (auto simp: step_def Stop_def StopToWait_def split: option.splits if_splits sum.splits)

lemma startProxyConnection_steps:
  assumes "run [ProxyStart p, ProxyStartReturns p, ProxyDone p] w = Some w'" and "\<not> crashed w'"
  shows "startProxyConnection p (sb w) = (Some (sb w'), [ConnStart p]) \<and>
         trace w' = trace w @ [ConnStart p]"
  using assms
  by (auto simp: step_def startProxyConnection_def split: option.splits if_splits)

lemma boot_sb0:
  "boot 1 2 sb0 =
     \<lparr>sb = sb1,
      trace = [Log Info ''Started speedbump''
                 [LStr ''port'', LInt 8000, LStr ''dest'', LAddrString (loopback 9000)],
               GoStartAcceptLoop],
      acceptLoop = AtAccept, stopping = NotCalled, procs = (\<lambda>p. NotLaunched),
      crashed = False\<rparr>"
  by (simp add: boot_def Start_def sb0_def sb1_def loopback_def)

lemma run_demoActs: "run demoActs (boot 1 2 sb0) = Some demoWorld"
  unfolding boot_sb0 demoActs_def
  by (simp add: step_def acceptIteration_def StopToWait_def WaitGroupDone_def demoWorld_def
      sb1_def sb0_def)

section \<open>Properties of Stop\<close>

text \<open>
  C4. On an instance built by NewSpeedbump and started once, in every world \<open>w\<close> that
  the goroutines can reach: calling Stop closes the listener and then cancels the
  context \<open>c\<close> of the instance, before it waits; every proxy connection created so
  far was constructed with that one context; once Stop has been called, the next answer
  of \<open>AcceptTCP\<close> makes the accept loop return; and \<open>Wait\<close>, hence Stop, returns only
  in a world where every launched \<open>startProxyConnection\<close> has finished, that is, its
  \<open>p.start()\<close> has returned and its \<open>Done\<close> has run.
\<close>

theorem Stop_cancels_then_waits:
  assumes "NewSpeedbump R G now cfg = Inr s0" and "run acts (boot l c s0) = Some w"
  shows "(\<forall>w'. step CallStop w = Some w' \<longrightarrow>
            trace w' = trace w @ [Log Info ''Stopping speedbump'' [], ListenerClose (Some l),
                                  CtxCancel c,
                                  Log Debug ''Waiting for active connections to be closed'' []] \<and>
            stopping w' = AtWait \<and> \<not> crashed w') \<and>
         (\<forall>args. NewProxyConnection args \<in> set (trace w) \<longrightarrow> arg_ctx args = Some c) \<and>
         (\<forall>ev w1 w2. stopping w \<noteq> NotCalled \<longrightarrow> step (AcceptReturns ev) w = Some w1 \<longrightarrow>
            step AcceptBody w1 = Some w2 \<longrightarrow> acceptLoop w2 = LoopReturned) \<and>
         (\<forall>w'. step StopWaitReturns w = Some w' \<longrightarrow>
            stopping w' = StopReturned \<and>
            (\<forall>p. procs w' p = NotLaunched \<or> procs w' p = Finished))"
proof -
  from assms have inv: "consistent l c w"
    by (blast intro: consistent_run consistent_boot)
  have stop: "\<forall>w'. step CallStop w = Some w' \<longrightarrow>
            trace w' = trace w @ [Log Info ''Stopping speedbump'' [], ListenerClose (Some l),
                                  CtxCancel c,
                                  Log Debug ''Waiting for active connections to be closed'' []] \<and>
            stopping w' = AtWait \<and> \<not> crashed w'"
    using inv by (auto simp: step_def consistent_def StopToWait_def split: if_splits)
  have shared: "\<forall>args. NewProxyConnection args \<in> set (trace w) \<longrightarrow> arg_ctx args = Some c"
    using inv by (simp add: consistent_def)
  have loop: "\<forall>ev w1 w2. stopping w \<noteq> NotCalled \<longrightarrow> step (AcceptReturns ev) w = Some w1 \<longrightarrow>
            step AcceptBody w1 = Some w2 \<longrightarrow> acceptLoop w2 = LoopReturned"
  proof (intro allI impI)
    fix ev w1 w2
    assume called: "stopping w \<noteq> NotCalled"
      and s1: "step (AcceptReturns ev) w = Some w1"
      and s2: "step AcceptBody w1 = Some w2"
    from called s1 have closed: "useOfClosed ev" and w1: "w1 = w\<lparr>acceptLoop := Got ev\<rparr>"
      by (auto simp: step_def split: if_splits)
    from closed obtain err where ev: "ev = AcceptError err"
      and err: "strings_Contains err ''use of closed''"
      by (cases ev) auto
    from s2 show "acceptLoop w2 = LoopReturned"
      unfolding w1 ev using err
      by (auto simp: step_def acceptIteration_def split: if_splits)
  qed
  have wait: "\<forall>w'. step StopWaitReturns w = Some w' \<longrightarrow>
            stopping w' = StopReturned \<and>
            (\<forall>p. procs w' p = NotLaunched \<or> procs w' p = Finished)"
  proof (intro allI impI)
    fix w'
    assume s: "step StopWaitReturns w = Some w'"
    then have zero: "active (sb w) = 0"
      and w': "w' = w\<lparr>trace := trace w @ StopAfterWait, stopping := StopReturned\<rparr>"
      by (auto simp: step_def split: if_splits)
    from inv zero have none: "live (procs w) (activeConnections (sb w)) = []"
      by (simp add: consistent_def)
    have "procs w p = NotLaunched \<or> procs w p = Finished" for p
    proof (cases "p \<in> set (activeConnections (sb w))")
      case True
      with none show ?thesis
        by (auto simp: live_def filter_empty_conv)
    next
      case False
      with inv show ?thesis by (simp add: consistent_def)
    qed
    then show "stopping w' = StopReturned \<and>
               (\<forall>p. procs w' p = NotLaunched \<or> procs w' p = Finished)"
      unfolding w' by simp
  qed
  from stop shared loop wait show ?thesis by blast
qed

theorem Stop_cancels_then_waits_witness:
  "NewSpeedbump resolveLocal constGen 7 cfg0 = Inr sb0 \<and>
   run demoActs (boot 1 2 sb0) = Some demoWorld \<and>
   NewProxyConnection (proxyArgs sb1 5) \<in> set (trace demoWorld) \<and>
   arg_ctx (proxyArgs sb1 5) = Some 2 \<and>
   step StopWaitReturns demoWorld =
     Some (demoWorld\<lparr>trace := trace demoWorld @ StopAfterWait, stopping := StopReturned\<rparr>) \<and>
   procs demoWorld 10 = Finished \<and>
   stopping demoWorld \<noteq> NotCalled \<and>
   step (AcceptReturns (AcceptError ''accept tcp 127.0.0.1:8000: use of closed network connection''))
     demoWorld =
     Some (demoWorld\<lparr>acceptLoop :=
        Got (AcceptError ''accept tcp 127.0.0.1:8000: use of closed network connection'')\<rparr>) \<and>
   (\<exists>w2. step AcceptBody (demoWorld\<lparr>acceptLoop :=
        Got (AcceptError ''accept tcp 127.0.0.1:8000: use of closed network connection'')\<rparr>) = Some w2
      \<and> acceptLoop w2 = LoopReturned) \<and>
   (\<exists>w'. step CallStop (boot 1 2 sb0) = Some w' \<and> stopping w' = AtWait)"
proof -
  have b: "run [] (boot 1 2 sb0) = Some (boot 1 2 sb0)" by simp
  have c: "step StopWaitReturns demoWorld =
     Some (demoWorld\<lparr>trace := trace demoWorld @ StopAfterWait, stopping := StopReturned\<rparr>)"
    by (simp add: step_def demoWorld_def sb1_def sb0_def)
  have d: "step (AcceptReturns (AcceptError ''accept tcp 127.0.0.1:8000: use of closed network connection''))
     demoWorld =
     Some (demoWorld\<lparr>acceptLoop :=
        Got (AcceptError ''accept tcp 127.0.0.1:8000: use of closed network connection'')\<rparr>)"
    by (simp add: step_def demoWorld_def)
  have e: "\<exists>w2. step AcceptBody (demoWorld\<lparr>acceptLoop :=
        Got (AcceptError ''accept tcp 127.0.0.1:8000: use of closed network connection'')\<rparr>) = Some w2"
    by (simp add: step_def demoWorld_def acceptIteration_def)
  have f: "\<exists>w'. step CallStop (boot 1 2 sb0) = Some w'"
    unfolding boot_sb0 by (simp add: step_def StopToWait_def sb1_def)
  have g: "NewProxyConnection (proxyArgs sb1 5) \<in> set (trace demoWorld)"
    by (simp add: demoWorld_def)
  have h: "stopping demoWorld \<noteq> NotCalled" by (simp add: demoWorld_def)
  from Stop_cancels_then_waits [OF NewSpeedbump_cfg0 run_demoActs]
       Stop_cancels_then_waits [OF NewSpeedbump_cfg0 b]
       NewSpeedbump_cfg0 run_demoActs c d e f g h
  show ?thesis
    by (auto simp: demoWorld_def)
qed

text \<open>
  What the property above leaves open: a client that \<open>AcceptTCP\<close> returned just
  before Stop closed the listener gets its proxy connection when the accept loop goes
  on, possibly after Stop has returned. That connection is registered and started in a
  world where Stop is over; it was not among the launched ones when \<open>Wait\<close> returned.
\<close>

lemma late_connection:
  "\<exists>w. run lateActs (boot 1 2 sb0) = Some w \<and> stopping w = StopReturned \<and>
       procs w 10 = InStart \<and> activeConnections (sb w) = [10]"
  unfolding boot_sb0 lateActs_def
  by (simp add: step_def acceptIteration_def StopToWait_def StopAfterWait_def sb1_def sb0_def)

section \<open>Properties of Enable and Disable\<close>

lemma step_disabled:
  "step a w = Some w' \<Longrightarrow>
   disabled (sb w') =
     (case a of CallEnable \<Rightarrow> False | CallDisable \<Rightarrow> True | _ \<Rightarrow> disabled (sb w))"
  by (cases a)
     (auto simp: step_def acceptIteration_def Enable_def Disable_def WaitGroupDone_def
        split: if_splits accept_pc.splits accept_event.splits sum.splits option.splits)

lemma run_disabled:
  "run acts w = Some w' \<Longrightarrow> disabled (sb w') = lastToggle acts (disabled (sb w))"
proof (induction acts arbitrary: w)
  case Nil
  then show ?case by simp
next
  case (Cons a acts)
  then obtain w1 where s: "step a w = Some w1" and r: "run acts w1 = Some w'"
    by (auto split: option.splits)
  from step_disabled [OF s] Cons.IH [OF r] show ?case
    by (cases a) simp_all
qed

text \<open>
  C9. Enable and Disable set the \<open>disabled\<close> flag of the instance, and nothing else
  writes it: after any run, the flag is what the last Enable or Disable call of the run
  left (or its initial value). When the accept loop then creates the proxy connection
  of an accepted client, the enabled state it passes to \<open>newProxyConnection\<close> is the
  negation of the flag as it is at that call.
\<close>

theorem toggles_govern_new_connections:
  "run acts w0 = Some w \<Longrightarrow> acceptLoop w = Got (Accepted conn created) \<Longrightarrow>
   step AcceptBody w = Some w' \<Longrightarrow>
     fst (Enable s) = s\<lparr>disabled := False\<rparr> \<and> fst (Disable s) = s\<lparr>disabled := True\<rparr> \<and>
     disabled (sb w) = lastToggle acts (disabled (sb w0)) \<and>
     (\<exists>rest. trace w' = trace w @ NewProxyConnection (proxyArgs (sb w) conn) # rest) \<and>
     arg_enabled (proxyArgs (sb w) conn) = (\<not> lastToggle acts (disabled (sb w0)))"
proof -
  assume r: "run acts w0 = Some w" and got: "acceptLoop w = Got (Accepted conn created)"
    and s: "step AcceptBody w = Some w'"
  note flag = run_disabled [OF r]
  from s got have "\<exists>rest. trace w' = trace w @ NewProxyConnection (proxyArgs (sb w) conn) # rest"
    by (cases created) (auto simp: step_def acceptIteration_def split: if_splits)
  with flag show ?thesis
    by (simp add: Enable_def Disable_def proxyArgs_def)
qed

lemma run_toggleActs: "run toggleActs (boot 1 2 sb0) = Some toggleWorld"
  unfolding boot_sb0 toggleActs_def
  by (simp add: step_def Disable_def toggleWorld_def sb1_def sb0_def)

lemma step_toggleWorld:
  "step AcceptBody toggleWorld =
     Some (toggleWorld\<lparr>sb := (sb toggleWorld)\<lparr>nextConnId := 1, active := 1,
                                               activeConnections := [10]\<rparr>,
                       trace := trace toggleWorld @
                         [NewProxyConnection (proxyArgs (sb toggleWorld) 5),
                          GoStartProxyConnection 10],
                       acceptLoop := AtAccept,
                       procs := (\<lambda>p. NotLaunched)(10 := Launched)\<rparr>)"
  by (simp add: step_def toggleWorld_def acceptIteration_def sb1_def sb0_def)

theorem toggles_govern_new_connections_witness:
  "run toggleActs (boot 1 2 sb0) = Some toggleWorld \<and>
   acceptLoop toggleWorld = Got (Accepted 5 (Inr 10)) \<and>
   disabled (sb (boot 1 2 sb0)) = False \<and>
   lastToggle toggleActs False = True \<and>
   disabled (sb toggleWorld) = True \<and>
   arg_enabled (proxyArgs (sb toggleWorld) 5) = False"
proof -
  have got: "acceptLoop toggleWorld = Got (Accepted 5 (Inr 10))"
    by (simp add: toggleWorld_def)
  have init: "disabled (sb (boot 1 2 sb0)) = False"
    unfolding boot_sb0 by (simp add: sb1_def sb0_def)
  have last: "lastToggle toggleActs False = True"
    by (simp add: toggleActs_def)
  from toggles_govern_new_connections [OF run_toggleActs got step_toggleWorld]
  have "disabled (sb toggleWorld) = lastToggle toggleActs (disabled (sb (boot 1 2 sb0)))"
    and "arg_enabled (proxyArgs (sb toggleWorld) 5) =
         (\<not> lastToggle toggleActs (disabled (sb (boot 1 2 sb0))))"
    by blast+
  with run_toggleActs got init last show ?thesis
    by simp
qed

section \<open>Properties of the registry\<close>

lemma step_prefix:
  "step a w = Some w' \<Longrightarrow> prefix (activeConnections (sb w)) (activeConnections (sb w'))"
  by (cases a)
     (auto simp: step_def acceptIteration_def Enable_def Disable_def WaitGroupDone_def
        split: if_splits accept_pc.splits accept_event.splits sum.splits option.splits)

lemma run_prefix:
  "run acts w = Some w' \<Longrightarrow> prefix (activeConnections (sb w)) (activeConnections (sb w'))"
proof (induction acts arbitrary: w)
  case Nil
  then show ?case by simp
next
  case (Cons a acts)
  then obtain w1 where s: "step a w = Some w1" and r: "run acts w1 = Some w'"
    by (auto split: option.splits)
  from step_prefix [OF s] Cons.IH [OF r] show ?case
    by (rule prefix_order.trans)
qed

text \<open>
  C10. \<open>activeConnections\<close> only grows. A turn of the accept loop that creates a
  proxy connection appends it; whatever the goroutines do afterwards, the earlier list
  stays a prefix of the later one. Hence each connection that was ever launched,
  finished or not, is still in the list, and Enable and Disable call \<open>conn.Enable()\<close>
  and \<open>conn.Disable()\<close> on every element of the list.
\<close>

theorem registry_is_append_only:
  assumes "NewSpeedbump R G now cfg = Inr s0"
    and "run acts (boot l c s0) = Some w"
    and "run later w = Some w'"
  shows "prefix (activeConnections (sb w)) (activeConnections (sb w')) \<and>
         activeConnections (fst (snd (acceptIteration (Accepted conn (Inr q)) (sb w)))) =
           activeConnections (sb w) @ [q] \<and>
         snd (Enable (sb w')) = map ConnEnable (activeConnections (sb w')) \<and>
         snd (Disable (sb w')) = map ConnDisable (activeConnections (sb w')) \<and>
         (\<forall>p. procs w p \<noteq> NotLaunched \<longrightarrow>
            p \<in> set (activeConnections (sb w')) \<and>
            ConnEnable p \<in> set (snd (Enable (sb w'))) \<and>
            ConnDisable p \<in> set (snd (Disable (sb w'))))"
proof -
  from assms(1,2) have inv: "consistent l c w"
    by (blast intro: consistent_run consistent_boot)
  note pre = run_prefix [OF assms(3)]
  have reg: "p \<in> set (activeConnections (sb w'))" if "procs w p \<noteq> NotLaunched" for p
  proof -
    from inv that have "p \<in> set (activeConnections (sb w))"
      by (simp add: consistent_def)
    with pre show ?thesis
      by (auto simp: prefix_def)
  qed
  from pre reg show ?thesis
    by (auto simp: Enable_def Disable_def acceptIteration_def)
qed

theorem registry_is_append_only_witness:
  "NewSpeedbump resolveLocal constGen 7 cfg0 = Inr sb0 \<and>
   run demoActs (boot 1 2 sb0) = Some demoWorld \<and>
   run [CallEnable] demoWorld =
     Some (demoWorld\<lparr>trace := trace demoWorld @ [ConnEnable 10]\<rparr>) \<and>
   procs demoWorld 10 = Finished \<and>
   activeConnections (sb demoWorld) = [10] \<and>
   ConnDisable 10 \<in> set (snd (Disable (sb demoWorld)))"
proof -
  have e: "run [CallEnable] demoWorld =
     Some (demoWorld\<lparr>trace := trace demoWorld @ [ConnEnable 10]\<rparr>)"
    by (simp add: step_def Enable_def demoWorld_def sb1_def sb0_def)
  from registry_is_append_only [OF NewSpeedbump_cfg0 run_demoActs e]
    NewSpeedbump_cfg0 run_demoActs e
  show ?thesis
    by (simp add: demoWorld_def Disable_def)
qed

section \<open>Nothing is retried\<close>

lemma failed_accepts_repeat:
  "\<not> strings_Contains err ''use of closed'' \<Longrightarrow>
   startAcceptLoop (replicate n (AcceptError err) @ evs) s =
     (case startAcceptLoop evs s of
        (st, s', t) \<Rightarrow>
          (st, s',
           replicate n (Log Warn ''Accepting incoming TCP conn failed'' [LStr ''err'', LStr err])
             @ t))"
  by (induction n) (auto simp: acceptIteration_def split: prod.splits)

lemma failed_creations_repeat:
  "startAcceptLoop (replicate n (Accepted conn (Inl err)) @ evs) s =
     (case startAcceptLoop evs s of
        (st, s', t) \<Rightarrow>
          (st, s',
           concat (replicate n
             [NewProxyConnection (proxyArgs s conn),
              Log Warn ''Creating new proxy conn failed'' [LStr ''err'', LStr err],
              ConnClose conn]) @ t))"
  by (induction n) (auto simp: acceptIteration_def split: prod.splits)

lemma count_ConnStart_Enable [simp]: "count_list (map ConnEnable ps) (ConnStart p) = 0"
  by (induction ps) auto

lemma count_ConnStart_Disable [simp]: "count_list (map ConnDisable ps) (ConnStart p) = 0"
  by (induction ps) auto

lemma filter_Enable_creation [simp]: "filter (isCreationOf conn) (map ConnEnable ps) = []"
  by (induction ps) auto

lemma filter_Disable_creation [simp]: "filter (isCreationOf conn) (map ConnDisable ps) = []"
  by (induction ps) auto

lemma filter_Enable_close [simp]: "filter (\<lambda>e. e = ConnClose conn) (map ConnEnable ps) = []"
  by (induction ps) auto

lemma filter_Disable_close [simp]: "filter (\<lambda>e. e = ConnClose conn) (map ConnDisable ps) = []"
  by (induction ps) auto

lemma startedOnce_boot: "startedOnce (boot l c s)"
  by (simp add: startedOnce_def boot_def Start_def)

lemma startedOnce_AcceptBody:
  assumes "consistent l c w" and "startedOnce w" and "step AcceptBody w = Some w'"
  shows "startedOnce w'"
proof -
  from assms obtain ev where got: "acceptLoop w = Got ev"
    and fresh: "freshConnection ev (activeConnections (sb w))"
    by (auto simp: step_def consistent_def split: accept_pc.splits if_splits)
  show ?thesis
  proof (cases ev)
    case (AcceptError err)
    with assms got show ?thesis
      by (auto simp: startedOnce_def consistent_def step_def acceptIteration_def split: if_splits)
  next
    case (Accepted conn created)
    show ?thesis
    proof (cases created)
      case (Inl err)
      with assms got Accepted show ?thesis
        by (auto simp: startedOnce_def consistent_def step_def acceptIteration_def)
    next
      case (Inr p)
      with fresh Accepted have new: "p \<notin> set (activeConnections (sb w))" by simp
      from assms(1) new have notl: "procs w p = NotLaunched"
        by (simp add: consistent_def)
      from assms got Accepted Inr new
      have tr: "trace w' = trace w @ [NewProxyConnection (proxyArgs (sb w) conn),
                                      GoStartProxyConnection p]"
        and pr: "procs w' = (procs w)(p := Launched)"
        by (auto simp: step_def consistent_def acceptIteration_def)
      from assms(2) have cnt: "count_list (trace w) (ConnStart q) =
            (if procs w q = NotLaunched \<or> procs w q = Launched then 0 else 1)" for q
        by (simp add: startedOnce_def)
      from assms(2) have once: "StartOnceDo \<notin> set (trace w)"
        by (simp add: startedOnce_def)
      have "count_list (trace w') (ConnStart q) =
            (if procs w' q = NotLaunched \<or> procs w' q = Launched then 0 else 1)" for q
        using cnt [of q] notl by (cases "q = p") (simp_all add: tr pr)
      moreover from once have "StartOnceDo \<notin> set (trace w')" by (simp add: tr)
      ultimately show ?thesis by (simp add: startedOnce_def)
    qed
  qed
qed

lemma startedOnce_other:
  "startedOnce w \<Longrightarrow> a \<noteq> AcceptBody \<Longrightarrow> step a w = Some w' \<Longrightarrow> startedOnce w'"
  by (cases a)
     (auto simp: startedOnce_def step_def Enable_def Disable_def WaitGroupDone_def
        StopToWait_def StopAfterWait_def split: if_splits option.splits)

lemma startedOnce_step:
  assumes "consistent l c w" and "startedOnce w" and "step a w = Some w'"
  shows "startedOnce w'"
proof (cases "a = AcceptBody")
  case True
  with assms show ?thesis by (blast intro: startedOnce_AcceptBody)
next
  case False
  with assms(2,3) show ?thesis by (blast intro: startedOnce_other)
qed

lemma startedOnce_run:
  "consistent l c w \<Longrightarrow> startedOnce w \<Longrightarrow> run acts w = Some w' \<Longrightarrow> startedOnce w'"
proof (induction acts arbitrary: w)
  case Nil
  then show ?case by simp
next
  case (Cons a acts)
  then obtain w1 where s: "step a w = Some w1" and r: "run acts w1 = Some w'"
    by (auto split: option.splits)
  from Cons.prems(1) s have "consistent l c w1" by (rule consistent_step)
  moreover from Cons.prems(1,2) s have "startedOnce w1" by (rule startedOnce_step)
  ultimately show ?case using r by (rule Cons.IH)
qed

lemma step_creations:
  "step a w = Some w' \<Longrightarrow>
   length (filter (isCreationOf conn) (trace w')) +
     length (filter (isAcceptOf conn) (pending (acceptLoop w'))) =
   length (filter (isCreationOf conn) (trace w)) +
     length (filter (isAcceptOf conn) (pending (acceptLoop w))) +
     length (filter (isAcceptOf conn) (answers [a]))"
  by (cases a)
     (auto simp: step_def acceptIteration_def proxyArgs_def Enable_def Disable_def
        WaitGroupDone_def StopToWait_def StopAfterWait_def
        split: if_splits option.splits accept_pc.splits accept_event.splits sum.splits)

lemma step_closes:
  "step a w = Some w' \<Longrightarrow>
   length (filter (\<lambda>e. e = ConnClose conn) (trace w')) +
     length (filter (isFailedCreationOf conn) (pending (acceptLoop w'))) =
   length (filter (\<lambda>e. e = ConnClose conn) (trace w)) +
     length (filter (isFailedCreationOf conn) (pending (acceptLoop w))) +
     length (filter (isFailedCreationOf conn) (answers [a]))"
  by (cases a)
     (auto simp: step_def acceptIteration_def proxyArgs_def Enable_def Disable_def
        WaitGroupDone_def StopToWait_def StopAfterWait_def
        split: if_splits option.splits accept_pc.splits accept_event.splits sum.splits)

lemma answers_Cons: "answers (a # as) = answers [a] @ answers as"
  by (cases a) simp_all

lemma run_creations:
  "run acts w = Some w' \<Longrightarrow>
   length (filter (isCreationOf conn) (trace w')) +
     length (filter (isAcceptOf conn) (pending (acceptLoop w'))) =
   length (filter (isCreationOf conn) (trace w)) +
     length (filter (isAcceptOf conn) (pending (acceptLoop w))) +
     length (filter (isAcceptOf conn) (answers acts))"
proof (induction acts arbitrary: w)
  case Nil
  then show ?case by simp
next
  case (Cons a acts)
  then obtain w1 where s: "step a w = Some w1" and r: "run acts w1 = Some w'"
    by (auto split: option.splits)
  from step_creations [OF s, of conn] Cons.IH [OF r] show ?case
    by (subst answers_Cons) simp
qed

lemma run_closes:
  "run acts w = Some w' \<Longrightarrow>
   length (filter (\<lambda>e. e = ConnClose conn) (trace w')) +
     length (filter (isFailedCreationOf conn) (pending (acceptLoop w'))) =
   length (filter (\<lambda>e. e = ConnClose conn) (trace w)) +
     length (filter (isFailedCreationOf conn) (pending (acceptLoop w))) +
     length (filter (isFailedCreationOf conn) (answers acts))"
proof (induction acts arbitrary: w)
  case Nil
  then show ?case by simp
next
  case (Cons a acts)
  then obtain w1 where s: "step a w = Some w1" and r: "run acts w1 = Some w'"
    by (auto split: option.splits)
  from step_closes [OF s, of conn] Cons.IH [OF r] show ?case
    by (subst answers_Cons) simp
qed

lemma boot_counts:
  "filter (isCreationOf conn) (trace (boot l c s)) = [] \<and>
   filter (\<lambda>e. e = ConnClose conn) (trace (boot l c s)) = [] \<and>
   pending (acceptLoop (boot l c s)) = []"
  by (simp add: boot_def Start_def)

text \<open>
  C8. Nothing is retried, and neither \<open>_maxAttempts\<close> nor \<open>startOnce\<close> has a part in
  what the operations do. On an instance built by NewSpeedbump and started once, in
  every world \<open>w\<close> that a run \<open>acts\<close> of the goroutines reaches:
  \<^item> for each client socket, \<open>newProxyConnection\<close> has been called exactly as often as
    \<open>AcceptTCP\<close> returned that socket and the loop went on with it, and the socket has
    been closed exactly as often as its creation failed: a failed creation is followed
    by no second call;
  \<^item> \<open>p.start()\<close> has been called exactly once for each connection whose goroutine
    is past the call, also after it has returned, and for no other;
  \<^item> \<open>startOnce.Do\<close> has never been called, neither by Start nor later; and Start is
    not guarded by it: called again, it stores the new listener and launches another
    accept loop.

  For the accept loop by itself, on any answers: one creation call per accepted
  socket, one close per failed creation, one warning per failed accept or creation;
  and \<open>n\<close> failed accepts, or \<open>n\<close> failed creations, in a row leave the instance as it
  was and the loop handling what follows as it would have, for every \<open>n\<close>: no count of
  attempts is kept, and after more than \<open>_maxAttempts\<close> failures the loop still
  accepts.
\<close>

theorem no_retry:
  assumes "NewSpeedbump R G now cfg = Inr s0" and "run acts (boot l c s0) = Some w"
  shows "(\<forall>conn. length (filter (isCreationOf conn) (trace w)) +
                  length (filter (isAcceptOf conn) (pending (acceptLoop w))) =
                length (filter (isAcceptOf conn) (answers acts))) \<and>
         (\<forall>conn. length (filter (\<lambda>e. e = ConnClose conn) (trace w)) +
                  length (filter (isFailedCreationOf conn) (pending (acceptLoop w))) =
                length (filter (isFailedCreationOf conn) (answers acts))) \<and>
         (\<forall>p. count_list (trace w) (ConnStart p) =
                (if procs w p = NotLaunched \<or> procs w p = Launched then 0 else 1)) \<and>
         StartOnceDo \<notin> set (trace w) \<and>
         (\<forall>l' c'. fst (Start (Inr l') c' (sb w)) = None \<and>
                  listener (fst (snd (Start (Inr l') c' (sb w)))) = Some l' \<and>
                  GoStartAcceptLoop \<in> set (snd (snd (Start (Inr l') c' (sb w)))) \<and>
                  StartOnceDo \<notin> set (snd (snd (Start (Inr l') c' (sb w))))) \<and>
         (\<forall>evs s st s' t conn. startAcceptLoop evs s = (st, s', t) \<longrightarrow>
            length (filter (isCreationOf conn) t) =
              length (filter (isAcceptOf conn) (handled evs)) \<and>
            length (filter (\<lambda>e. e = ConnClose conn) t) =
              length (filter (isFailedCreationOf conn) (handled evs)) \<and>
            length (filter isWarn t) = length (filter isFailure (handled evs))) \<and>
         (\<forall>n err evs s. \<not> strings_Contains err ''use of closed'' \<longrightarrow>
            startAcceptLoop (replicate n (AcceptError err) @ evs) s =
              (case startAcceptLoop evs s of
                 (st, s', t) \<Rightarrow>
                   (st, s',
                    replicate n
                      (Log Warn ''Accepting incoming TCP conn failed'' [LStr ''err'', LStr err])
                      @ t))) \<and>
         (\<forall>n conn err evs s.
            startAcceptLoop (replicate n (Accepted conn (Inl err)) @ evs) s =
              (case startAcceptLoop evs s of
                 (st, s', t) \<Rightarrow>
                   (st, s',
                    concat (replicate n
                      [NewProxyConnection (proxyArgs s conn),
                       Log Warn ''Creating new proxy conn failed'' [LStr ''err'', LStr err],
                       ConnClose conn]) @ t))) \<and>
         (\<forall>conn err. fst (startAcceptLoop (replicate (Suc maxAttempts) (Accepted conn (Inl err)))
                            (sb w)) = Accepting)"
proof -
  from assms(1) have inv0: "consistent l c (boot l c s0)" by (rule consistent_boot)
  then have once: "startedOnce w"
    using startedOnce_boot assms(2) by (rule startedOnce_run)
  have created: "\<forall>conn. length (filter (isCreationOf conn) (trace w)) +
                  length (filter (isAcceptOf conn) (pending (acceptLoop w))) =
                length (filter (isAcceptOf conn) (answers acts))"
    using run_creations [OF assms(2)] by (simp add: boot_counts)
  have closed: "\<forall>conn. length (filter (\<lambda>e. e = ConnClose conn) (trace w)) +
                  length (filter (isFailedCreationOf conn) (pending (acceptLoop w))) =
                length (filter (isFailedCreationOf conn) (answers acts))"
    using run_closes [OF assms(2)] by (simp add: boot_counts)
  from once have cnt: "\<forall>p. count_list (trace w) (ConnStart p) =
                (if procs w p = NotLaunched \<or> procs w p = Launched then 0 else 1)"
    and nodo: "StartOnceDo \<notin> set (trace w)"
    by (simp_all add: startedOnce_def)
  have again: "fst (Start (Inr l') c' (sb w)) = None \<and>
                  listener (fst (snd (Start (Inr l') c' (sb w)))) = Some l' \<and>
                  GoStartAcceptLoop \<in> set (snd (snd (Start (Inr l') c' (sb w)))) \<and>
                  StartOnceDo \<notin> set (snd (snd (Start (Inr l') c' (sb w))))" for l' c'
    by (simp add: Start_def)
  have counts: "\<forall>evs s st s' t conn. startAcceptLoop evs s = (st, s', t) \<longrightarrow>
            length (filter (isCreationOf conn) t) =
              length (filter (isAcceptOf conn) (handled evs)) \<and>
            length (filter (\<lambda>e. e = ConnClose conn) t) =
              length (filter (isFailedCreationOf conn) (handled evs)) \<and>
            length (filter isWarn t) = length (filter isFailure (handled evs))"
    by (blast dest: startAcceptLoop_counts)
  have still: "fst (startAcceptLoop (replicate (Suc maxAttempts) (Accepted conn (Inl err)))
                            (sb w)) = Accepting" for conn err
    using failed_creations_repeat [of "Suc maxAttempts" conn err "[]" "sb w"] by simp
  from created closed cnt nodo again counts failed_accepts_repeat failed_creations_repeat still
  show ?thesis by blast
qed

lemma run_retryActs: "run retryActs (boot 1 2 sb0) = Some retryWorld"
  unfolding boot_sb0 retryActs_def
  by (simp add: step_def acceptIteration_def WaitGroupDone_def retryWorld_def proxyArgs_def
      sb1_def sb0_def)

theorem no_retry_witness:
  "NewSpeedbump resolveLocal constGen 7 cfg0 = Inr sb0 \<and>
   run retryActs (boot 1 2 sb0) = Some retryWorld \<and>
   length (filter (isAcceptOf 5) (answers retryActs)) = 1 \<and>
   length (filter (isCreationOf 5) (trace retryWorld)) = 1 \<and>
   length (filter (isFailedCreationOf 5) (answers retryActs)) = 1 \<and>
   length (filter (\<lambda>e. e = ConnClose 5) (trace retryWorld)) = 1 \<and>
   procs retryWorld 11 = Finished \<and>
   count_list (trace retryWorld) (ConnStart 11) = 1 \<and>
   startAcceptLoop sessionEvents sb1 =
     (Returned, sb1\<lparr>nextConnId := 1, active := 1, activeConnections := [11]\<rparr>, sessionTrace) \<and>
   length (filter isWarn sessionTrace) = 2 \<and>
   startAcceptLoop
     (replicate (Suc maxAttempts)
        (AcceptError ''accept tcp 127.0.0.1:8000: accept4: too many open files'')
      @ sessionEvents) sb1 =
     (Returned, sb1\<lparr>nextConnId := 1, active := 1, activeConnections := [11]\<rparr>,
      replicate (Suc maxAttempts)
        (Log Warn ''Accepting incoming TCP conn failed''
           [LStr ''err'', LStr ''accept tcp 127.0.0.1:8000: accept4: too many open files''])
      @ sessionTrace)"
proof -
  note facts = no_retry [OF NewSpeedbump_cfg0 run_retryActs]
  note created = facts [THEN conjunct1, rule_format, of 5]
  note closed = facts [THEN conjunct2, THEN conjunct1, rule_format, of 5]
  note started = facts [THEN conjunct2, THEN conjunct2, THEN conjunct1, rule_format, of 11]
  note counts = facts [THEN conjunct2, THEN conjunct2, THEN conjunct2, THEN conjunct2,
      THEN conjunct2, THEN conjunct1, rule_format, OF startAcceptLoop_session]
  note repeat = facts [THEN conjunct2, THEN conjunct2, THEN conjunct2, THEN conjunct2,
      THEN conjunct2, THEN conjunct2, THEN conjunct1, rule_format]
  have pend: "pending (acceptLoop retryWorld) = []" and fin: "procs retryWorld 11 = Finished"
    by (simp_all add: retryWorld_def)
  have acc: "length (filter (isAcceptOf 5) (answers retryActs)) = 1"
    and fail: "length (filter (isFailedCreationOf 5) (answers retryActs)) = 1"
    by (simp_all add: retryActs_def)
  from created pend acc have a: "length (filter (isCreationOf 5) (trace retryWorld)) = 1"
    by simp
  from closed pend fail
  have b: "length (filter (\<lambda>e. e = ConnClose 5) (trace retryWorld)) = 1"
    by simp
  from started fin have c: "count_list (trace retryWorld) (ConnStart 11) = 1" by simp
  from counts have d: "length (filter isWarn sessionTrace) = 2"
    by (simp add: handled_def sessionEvents_def)
  have busy:
    "\<not> strings_Contains ''accept tcp 127.0.0.1:8000: accept4: too many open files''
         ''use of closed''"
    by simp
  have e: "startAcceptLoop
     (replicate (Suc maxAttempts)
        (AcceptError ''accept tcp 127.0.0.1:8000: accept4: too many open files'')
      @ sessionEvents) sb1 =
     (case startAcceptLoop sessionEvents sb1 of
        (st, s', t) \<Rightarrow>
          (st, s',
           replicate (Suc maxAttempts)
             (Log Warn ''Accepting incoming TCP conn failed''
                [LStr ''err'', LStr ''accept tcp 127.0.0.1:8000: accept4: too many open files''])
           @ t))"
    using busy by (rule repeat)
  from a b c d e acc fail fin NewSpeedbump_cfg0 run_retryActs startAcceptLoop_session
  show ?thesis by (simp del: replicate.simps)
qed

section \<open>The registry is not guarded\<close>

lemma run_to_raceWorld:
  "run [AcceptReturns (Accepted 5 (Inr 10))] (boot 1 2 sb0) = Some raceWorld"
  unfolding boot_sb0 by (simp add: step_def raceWorld_def)

lemma registryRace_raceWorld: "registryRace raceWorld"
  by (simp add: registryRace_def possible_def step_def raceWorld_def acceptIteration_def
      Enable_def Disable_def sb1_def sb0_def)

text \<open>
  Whenever the accept loop is about to register a new connection, Enable and Disable
  can run as well: in every such world of every run the registry is raced for.
\<close>

lemma registryRace_whenever_created:
  assumes "consistent l c w" and "acceptLoop w = Got (Accepted conn (Inr p))"
    and "p \<notin> set (activeConnections (sb w))"
  shows "registryRace w"
  using assms
  by (simp add: registryRace_def possible_def step_def consistent_def acceptIteration_def
      Enable_def Disable_def)

text \<open>
  C1 does not hold of the code. After Start, a client is accepted (socket 5, for which
  \<open>newProxyConnection\<close> will return connection 10). In the world reached, the append
  of the accept loop and the range loops of Enable and Disable are all possible, with
  nothing to order them; and the order matters: if the append comes first, Enable
  calls \<open>conn.Enable()\<close> on connection 10, if Enable comes first it does not, although
  the connection is in the registry afterwards.
\<close>

theorem registry_is_raced_for:
  "run [AcceptReturns (Accepted 5 (Inr 10))] (boot 1 2 sb0) = Some raceWorld \<and>
   registryRace raceWorld \<and>
   (\<exists>w. run [AcceptBody, CallEnable] raceWorld = Some w \<and>
        activeConnections (sb w) = [10] \<and> ConnEnable 10 \<in> set (trace w)) \<and>
   (\<exists>w. run [CallEnable, AcceptBody] raceWorld = Some w \<and>
        activeConnections (sb w) = [10] \<and> ConnEnable 10 \<notin> set (trace w))"
proof -
  have a: "\<exists>w. run [AcceptBody, CallEnable] raceWorld = Some w \<and>
        activeConnections (sb w) = [10] \<and> ConnEnable 10 \<in> set (trace w)"
    by (simp add: step_def raceWorld_def acceptIteration_def Enable_def sb1_def sb0_def)
  have b: "\<exists>w. run [CallEnable, AcceptBody] raceWorld = Some w \<and>
        activeConnections (sb w) = [10] \<and> ConnEnable 10 \<notin> set (trace w)"
    by (simp add: step_def raceWorld_def acceptIteration_def Enable_def sb1_def sb0_def)
  from run_to_raceWorld registryRace_raceWorld a b show ?thesis by blast
qed

end
